theory Spec2Isabelle
  imports Main "HOL-Library.AList"
begin

section \<open>Python values, errors and dictionaries\<close>

text \<open>
  The executors of \<^verbatim>\<open>prefect/engine/executors/dask.py\<close> move Python objects
  around without looking inside them. The value universe below has exactly the shapes
  the code distinguishes: \<^verbatim>\<open>None\<close>, an opaque object (a State, a number), a
  sequence (list or tuple), a dictionary, and the three lazy objects of dask the
  synchronous executor builds: a \<^verbatim>\<open>Delayed\<close> call node (with the unique key dask
  gives an impure call), a bag made from one delayed sequence
  (\<^verbatim>\<open>dask.bag.from_delayed\<close>) and a bag made by mapping a function over bags
  (\<^verbatim>\<open>dask.bag.map\<close>).
\<close>

text \<open>
  The exceptions of Python and of the backends that the code can meet;
  \<open>TaskFailure\<close> stands for an exception raised by a function of the caller.
\<close>

datatype error =
    AttributeError
  | TypeError
  | ValueError
  | TimeoutError
  | IndexError
  | CancelledError
  | TaskFailure string

text \<open>
  The callables that are handed to dask: the two helpers of
  \<^verbatim>\<open>prefect.utilities.executors\<close> that the synchronous executor passes by name,
  and any function of the caller.
\<close>

datatype 'f callable = StateToList | UnpackDictToBag | Fn 'f

datatype ('f, 'a) pyval =
    PyNone
  | Obj 'a
  | PyList "('f, 'a) pyval list"
  | PyDict "(string option \<times> ('f, 'a) pyval) list"
  | Delayed nat "'f callable" "('f, 'a) pyval list" "(string \<times> ('f, 'a) pyval) list"
  | BagFromDelayed "('f, 'a) pyval"
  | BagMap "'f callable" "('f, 'a) pyval list" "(string \<times> ('f, 'a) pyval) list"

text \<open>
  \<^verbatim>\<open>maps\<close> and \<^verbatim>\<open>upstream_states\<close> are dictionaries whose keys are the name of
  a keyed edge or \<^verbatim>\<open>None\<close> for the non-keyed entries. A dictionary is an association
  list in insertion order; lookup reads the first binding of a key.
\<close>

type_synonym ('f, 'a) pydict = "(string option \<times> ('f, 'a) pyval) list"

type_synonym ('f, 'a) kwargs = "(string \<times> ('f, 'a) pyval) list"

text \<open>\<^verbatim>\<open>d.pop(k, default)\<close>: the value and the dictionary without the key.\<close>

definition dict_pop ::
  "string option \<Rightarrow> ('f, 'a) pyval \<Rightarrow> ('f, 'a) pydict \<Rightarrow> ('f, 'a) pyval \<times> ('f, 'a) pydict" where
  "dict_pop k dflt d =
     (case map_of d k of
        Some v \<Rightarrow> (v, AList.delete k d)
      | None \<Rightarrow> (dflt, d))"

text \<open>\<^verbatim>\<open>d.get(k, default)\<close>.\<close>

definition dict_get :: "('f, 'a) pydict \<Rightarrow> string option \<Rightarrow> ('f, 'a) pyval \<Rightarrow> ('f, 'a) pyval" where
  "dict_get d k dflt = (case map_of d k of Some v \<Rightarrow> v | None \<Rightarrow> dflt)"

text \<open>
  \<^verbatim>\<open>d.update(e)\<close>: every item of \<open>e\<close> is stored in \<open>d\<close>, in the order of
  \<open>e\<close>; a key already present keeps its place, a new one goes to the end.
\<close>

definition dict_update :: "('f, 'a) pydict \<Rightarrow> ('f, 'a) pydict \<Rightarrow> ('f, 'a) pydict" where
  "dict_update d e = fold (\<lambda>kv acc. AList.update (fst kv) (snd kv) acc) e d"

text \<open>
  \<^verbatim>\<open>list(v)\<close>: the elements of a sequence. None and an opaque object are not
  iterable, and a lazy object is not iterated here; they raise \<^verbatim>\<open>TypeError\<close>.
  (Iterating a dictionary, which yields its keys, is outside this value universe and
  is reported as \<^verbatim>\<open>TypeError\<close> too; no input below puts a dictionary there.)
\<close>

fun py_list :: "('f, 'a) pyval \<Rightarrow> error + ('f, 'a) pyval list" where
  "py_list (PyList xs) = Inr xs"
| "py_list _ = Inl TypeError"

text \<open>\<^verbatim>\<open>xs + v\<close> for a list \<open>xs\<close>: concatenation when \<open>v\<close> is a list, else TypeError.\<close>

fun list_add :: "('f, 'a) pyval list \<Rightarrow> ('f, 'a) pyval \<Rightarrow> error + ('f, 'a) pyval" where
  "list_add xs (PyList ys) = Inr (PyList (xs @ ys))"
| "list_add xs _ = Inl TypeError"

section \<open>The cluster backend\<close>

text \<open>
  Modelled from the spec: the Cluster Backend behind \<^verbatim>\<open>distributed.Client\<close> is an
  external library and its code is not among the sources. Section 6 of the spec gives
  its contract: \<^verbatim>\<open>submit(session, fn, args, kwargs, dedupe) -> FutureHandle\<close> and
  \<^verbatim>\<open>gather(session, FutureHandle(s), timeout?) -> value(s)\<close>, failing on timeout.
  A session holds the tasks submitted so far; a Future is the position of its task.
  \<^verbatim>\<open>client.submit\<close> with \<^verbatim>\<open>pure=True\<close> (the default of the library) derives
  the key from the function and its arguments, so that an identical pure task already
  known is returned again; with \<^verbatim>\<open>pure=False\<close> every call gets a key of its own.
  The arguments are captured when the call is made. \<open>finish_time\<close> is the moment
  the result of a task becomes available, which the scheduler decides.
\<close>

record ('f, 'a) task =
  task_fn :: "'f callable"
  task_args :: "('f, 'a) pyval list"
  task_kwargs :: "('f, 'a) kwargs"
  task_pure :: bool

record ('f, 'a) cluster =
  tasks :: "('f, 'a) task list"
  finish_time :: "nat \<Rightarrow> nat"

fun find_key :: "'t \<Rightarrow> 't list \<Rightarrow> nat option" where
  "find_key t [] = None"
| "find_key t (x # xs) =
     (if x = t then Some 0 else map_option Suc (find_key t xs))"

definition client_submit ::
  "('f, 'a) cluster \<Rightarrow> 'f callable \<Rightarrow> ('f, 'a) pyval list \<Rightarrow> ('f, 'a) kwargs \<Rightarrow> bool
     \<Rightarrow> nat \<times> ('f, 'a) cluster" where
  "client_submit c fn args kwargs pure =
     (let t = \<lparr>task_fn = fn, task_args = args, task_kwargs = kwargs, task_pure = pure\<rparr>
      in case (if pure then find_key t (tasks c) else None) of
           Some k \<Rightarrow> (k, c)
         | None \<Rightarrow> (length (tasks c), c\<lparr>tasks := tasks c @ [t]\<rparr>))"

text \<open>
  What a task evaluates to is the business of the function it calls: \<open>sem\<close> gives,
  for a callable and its arguments, the value returned or the exception raised.
  The gather of the contract waits for every listed Future and returns the values in
  the order of the list. It fails with the backend's timeout error when a timeout is
  given and a listed task is not finished by then, with the exception of the first
  listed task that failed, and with \<^verbatim>\<open>CancelledError\<close> for a key the session
  does not hold.
\<close>

type_synonym ('f, 'a) sem =
  "'f callable \<Rightarrow> ('f, 'a) pyval list \<Rightarrow> ('f, 'a) kwargs \<Rightarrow> error + ('f, 'a) pyval"

fun sequence :: "('e + 'v) list \<Rightarrow> 'e + 'v list" where
  "sequence [] = Inr []"
| "sequence (Inl e # rs) = Inl e"
| "sequence (Inr v # rs) = (case sequence rs of Inl e \<Rightarrow> Inl e | Inr vs \<Rightarrow> Inr (v # vs))"

definition resolve :: "('f, 'a) sem \<Rightarrow> ('f, 'a) cluster \<Rightarrow> nat \<Rightarrow> error + ('f, 'a) pyval" where
  "resolve sem c k =
     (if k < length (tasks c)
      then sem (task_fn (tasks c ! k)) (task_args (tasks c ! k)) (task_kwargs (tasks c ! k))
      else Inl CancelledError)"

definition client_gather ::
  "('f, 'a) sem \<Rightarrow> ('f, 'a) cluster \<Rightarrow> nat list \<Rightarrow> nat option \<Rightarrow> error + ('f, 'a) pyval list" where
  "client_gather sem c futures timeout =
     (case timeout of
        Some t \<Rightarrow>
          if list_ex (\<lambda>k. t < finish_time c k) futures then Inl TimeoutError
          else sequence (map (resolve sem c) futures)
      | None \<Rightarrow> sequence (map (resolve sem c) futures))"

section \<open>DaskExecutor\<close>

record ('f, 'a) DaskExecutor =
  address :: "string option"
  processes :: bool
  self_kwargs :: "('f, 'a) kwargs"
  client :: "('f, 'a) cluster option"

text \<open>
  The loop of \<^verbatim>\<open>mapper\<close>, one step per element of \<open>states\<close>:
  \<^verbatim>\<open>upstream_states.update(elem)\<close>, then
  \<^verbatim>\<open>upstream_states[None] = list(upstream_states.get(None, [])) + non_keyed\<close>, then
  \<^verbatim>\<open>futures.append(client.submit(fn, *args, upstream_states=upstream_states, **kwargs))\<close>.
  The dictionary is the same object in every step, so each step starts from what the
  previous one left; the child is submitted with its content at that moment. The
  nested client submits with the library's default \<^verbatim>\<open>pure\<close>. The result is the
  list of futures or the exception, with the dictionary and the session as the loop
  left them.
\<close>

fun mapper_loop ::
  "'f callable \<Rightarrow> ('f, 'a) pyval list \<Rightarrow> ('f, 'a) kwargs \<Rightarrow> ('f, 'a) pyval
     \<Rightarrow> ('f, 'a) pydict list \<Rightarrow> ('f, 'a) pydict \<Rightarrow> nat list \<Rightarrow> ('f, 'a) cluster
     \<Rightarrow> (error + nat list) \<times> ('f, 'a) pydict \<times> ('f, 'a) cluster" where
  "mapper_loop fn args kwargs non_keyed [] upstream_states futures c =
     (Inr futures, upstream_states, c)"
| "mapper_loop fn args kwargs non_keyed (elem # states) upstream_states futures c =
     (let us1 = dict_update upstream_states elem
      in case py_list (dict_get us1 None (PyList [])) of
           Inl e \<Rightarrow> (Inl e, us1, c)
         | Inr own \<Rightarrow>
             (case list_add own non_keyed of
                Inl e \<Rightarrow> (Inl e, us1, c)
              | Inr v \<Rightarrow>
                  (let us2 = AList.update None v us1;
                       (fut, c') = client_submit c fn args
                                     ((''upstream_states'', PyDict us2) # kwargs) True
                   in mapper_loop fn args kwargs non_keyed states us2 (futures @ [fut]) c')))"

text \<open>
  \<^verbatim>\<open>mapper(maps, fn, *args, upstream_states, **kwargs)\<close>. \<^verbatim>\<open>upstream_states\<close> may
  be \<^verbatim>\<open>None\<close> (the default of \<^verbatim>\<open>map\<close>), on which \<^verbatim>\<open>.pop\<close> raises
  AttributeError. \<^verbatim>\<open>dict_to_list\<close> belongs to \<^verbatim>\<open>prefect.utilities.executors\<close>,
  which is not among the sources: it is the parameter \<open>dtl\<close>.
\<close>

definition mapper ::
  "(('f, 'a) pydict option \<Rightarrow> error + ('f, 'a) pydict list)
     \<Rightarrow> ('f, 'a) pydict option \<Rightarrow> 'f callable \<Rightarrow> ('f, 'a) pyval list
     \<Rightarrow> ('f, 'a) pydict option \<Rightarrow> ('f, 'a) kwargs \<Rightarrow> ('f, 'a) cluster
     \<Rightarrow> (error + nat list) \<times> ('f, 'a) pydict option \<times> ('f, 'a) cluster" where
  "mapper dtl maps fn args upstream_states kwargs c =
     (case upstream_states of
        None \<Rightarrow> (Inl AttributeError, None, c)
      | Some us \<Rightarrow>
          (let (non_keyed, us0) = dict_pop None (PyList []) us
           in case dtl maps of
                Inl e \<Rightarrow> (Inl e, Some us0, c)
              | Inr states \<Rightarrow>
                  (let (r, us', c') = mapper_loop fn args kwargs non_keyed states us0 [] c
                   in (r, Some us', c'))))"

text \<open>
  \<^verbatim>\<open>DaskExecutor.map\<close> submits \<^verbatim>\<open>mapper\<close> to the cluster and gathers its
  Future at once: the gather returns what \<^verbatim>\<open>mapper\<close> returned, the list of child
  Futures, or raises what it raised. The organizer runs on a worker against the same
  session; its own Future is consumed here and is not kept among \<open>tasks\<close>. With no
  client, \<^verbatim>\<open>self.client.submit\<close> raises AttributeError.
\<close>

definition DaskExecutor_map ::
  "(('f, 'a) pydict option \<Rightarrow> error + ('f, 'a) pydict list)
     \<Rightarrow> ('f, 'a) DaskExecutor \<Rightarrow> 'f callable \<Rightarrow> ('f, 'a) pyval list
     \<Rightarrow> ('f, 'a) pydict option \<Rightarrow> ('f, 'a) pydict option \<Rightarrow> ('f, 'a) kwargs
     \<Rightarrow> (error + nat list) \<times> ('f, 'a) DaskExecutor" where
  "DaskExecutor_map dtl ex fn args maps upstream_states kwargs =
     (case client ex of
        None \<Rightarrow> (Inl AttributeError, ex)
      | Some c \<Rightarrow>
          (let (r, us', c') = mapper dtl maps fn args upstream_states kwargs c
           in (r, ex\<lparr>client := Some c'\<rparr>)))"

text \<open>\<^verbatim>\<open>DaskExecutor.submit\<close>: \<^verbatim>\<open>self.client.submit(fn, *args, **kwargs, pure=False)\<close>.\<close>

definition DaskExecutor_submit ::
  "('f, 'a) DaskExecutor \<Rightarrow> 'f callable \<Rightarrow> ('f, 'a) pyval list \<Rightarrow> ('f, 'a) kwargs
     \<Rightarrow> (error + nat) \<times> ('f, 'a) DaskExecutor" where
  "DaskExecutor_submit ex fn args kwargs =
     (case client ex of
        None \<Rightarrow> (Inl AttributeError, ex)
      | Some c \<Rightarrow>
          (let (fut, c') = client_submit c fn args kwargs False
           in (Inr fut, ex\<lparr>client := Some c'\<rparr>)))"

text \<open>
  \<^verbatim>\<open>DaskExecutor.wait(futures, timeout)\<close>: \<^verbatim>\<open>self.client.gather(futures)\<close>. The
  timeout is not handed to the gather.
\<close>

definition DaskExecutor_wait ::
  "('f, 'a) sem \<Rightarrow> ('f, 'a) DaskExecutor \<Rightarrow> nat list \<Rightarrow> nat option
     \<Rightarrow> error + ('f, 'a) pyval list" where
  "DaskExecutor_wait sem ex futures timeout =
     (case client ex of
        None \<Rightarrow> Inl AttributeError
      | Some c \<Rightarrow> client_gather sem c futures None)"

text \<open>
  \<^verbatim>\<open>DaskExecutor.start\<close>, a context manager: \<^verbatim>\<open>Client(address, processes)\<close> is
  entered and stored in \<^verbatim>\<open>self.client\<close>, the body of the \<^verbatim>\<open>with\<close> statement runs
  on the executor and returns or raises, and the \<^verbatim>\<open>finally\<close> clause sets
  \<^verbatim>\<open>self.client = None\<close> in each case, also when the connection itself failed.
  \<open>connect\<close> is the backend's constructor.
\<close>

definition DaskExecutor_start ::
  "(string option \<Rightarrow> bool \<Rightarrow> error + ('f, 'a) cluster)
     \<Rightarrow> ('f, 'a) DaskExecutor
     \<Rightarrow> (('f, 'a) DaskExecutor \<Rightarrow> (error + 'r) \<times> ('f, 'a) DaskExecutor)
     \<Rightarrow> (error + 'r) \<times> ('f, 'a) DaskExecutor" where
  "DaskExecutor_start connect ex body =
     (case connect (address ex) (processes ex) of
        Inl e \<Rightarrow> (Inl e, ex\<lparr>client := None\<rparr>)
      | Inr c \<Rightarrow>
          (let (r, ex') = body (ex\<lparr>client := Some c\<rparr>)
           in (r, ex'\<lparr>client := None\<rparr>)))"

section \<open>The helpers that flatten mapped inputs\<close>

text \<open>
  Modelled from the spec: \<^verbatim>\<open>state_to_list\<close> and \<^verbatim>\<open>dict_to_list\<close> of
  \<^verbatim>\<open>prefect.utilities.executors\<close> are imported by the module but are not among
  the sources. The spec calls them the utility layer "flattening keyed/non-keyed
  upstream-state mappings, converting state containers to sequences", and fixes the
  fan-out: one child per element of the mapped-over collections, each child receiving
  the i-th element of every mapped input; mapped inputs of unequal length are an
  error and are not truncated. A keyed entry of \<^verbatim>\<open>maps\<close> is one mapped collection;
  the non-keyed entry is a list of mapped collections, of which the i-th child
  receives the list of their i-th elements, and contributes nothing when it is empty.
  Applied to \<^verbatim>\<open>None\<close> in place of a dictionary the flattening raises, as a
  dictionary operation on \<^verbatim>\<open>None\<close> does. These definitions only supply concrete
  inputs; the theorems about \<^verbatim>\<open>mapper\<close> hold for any flattening \<open>dtl\<close>.
\<close>

fun state_to_list :: "('f, 'a) pyval \<Rightarrow> error + ('f, 'a) pyval list" where
  "state_to_list (PyList xs) = Inr xs"
| "state_to_list _ = Inl TypeError"

definition same_length :: "'x list list \<Rightarrow> bool" where
  "same_length xss = (case xss of [] \<Rightarrow> True | xs # rest \<Rightarrow> list_all (\<lambda>ys. length ys = length xs) rest)"

fun columns ::
  "('f, 'a) pydict \<Rightarrow> error + (string option \<times> ('f, 'a) pyval list) list" where
  "columns [] = Inr []"
| "columns ((Some k, v) # d) =
     (case state_to_list v of
        Inl e \<Rightarrow> Inl e
      | Inr col \<Rightarrow>
          (case columns d of Inl e \<Rightarrow> Inl e | Inr cs \<Rightarrow> Inr ((Some k, col) # cs)))"
| "columns ((None, v) # d) =
     (case py_list v of
        Inl e \<Rightarrow> Inl e
      | Inr ms \<Rightarrow>
          (case sequence (map state_to_list ms) of
             Inl e \<Rightarrow> Inl e
           | Inr mss \<Rightarrow>
               if mss = [] then columns d
               else if \<not> same_length mss then Inl ValueError
               else (case columns d of
                       Inl e \<Rightarrow> Inl e
                     | Inr cs \<Rightarrow>
                         Inr ((None, map (\<lambda>i. PyList (map (\<lambda>m. m ! i) mss))
                                       [0..<length (hd mss)]) # cs))))"

definition dict_to_list :: "('f, 'a) pydict option \<Rightarrow> error + ('f, 'a) pydict list" where
  "dict_to_list maps =
     (case maps of
        None \<Rightarrow> Inl AttributeError
      | Some d \<Rightarrow>
          (case columns d of
             Inl e \<Rightarrow> Inl e
           | Inr cs \<Rightarrow>
               if cs = [] then Inr []
               else if \<not> same_length (map snd cs) then Inl ValueError
               else Inr (map (\<lambda>i. map (\<lambda>kc. (fst kc, snd kc ! i)) cs)
                             [0..<length (snd (hd cs))])))"

text \<open>
  What a child was submitted with: the \<^verbatim>\<open>upstream_states\<close> keyword of the task
  behind a Future, and its non-keyed entry.
\<close>

definition child_upstream_states :: "('f, 'a) cluster \<Rightarrow> nat \<Rightarrow> ('f, 'a) pyval option" where
  "child_upstream_states c k =
     (if k < length (tasks c) then map_of (task_kwargs (tasks c ! k)) ''upstream_states''
      else None)"

definition child_non_keyed :: "('f, 'a) cluster \<Rightarrow> nat \<Rightarrow> ('f, 'a) pyval option" where
  "child_non_keyed c k =
     (case child_upstream_states c k of
        Some (PyDict us) \<Rightarrow> map_of us None
      | _ \<Rightarrow> None)"

section \<open>The local evaluation engine\<close>

text \<open>
  Modelled from the spec: the Local Evaluation Engine (\<^verbatim>\<open>dask.delayed\<close>,
  \<^verbatim>\<open>dask.bag\<close>, \<^verbatim>\<open>dask.compute\<close>) is an external library and its code is not
  among the sources. Section 6 of the spec gives its contract: a lazy node that runs
  nothing when built, a lazy partitioned collection from rows, the element-wise map
  across partitioned collections of equal length that broadcasts the other arguments,
  and the evaluation of a lazy handle to concrete values.

  \<^verbatim>\<open>dask.delayed(fn)(*args, **kwargs)\<close> builds a lazy call node. The call is
  impure by the library's default, so the node gets a key of its own from a supply of
  unique tokens; the supply \<open>s\<close> is threaded through every function that creates a
  node.
\<close>

definition dask_delayed ::
  "'f callable \<Rightarrow> ('f, 'a) pyval list \<Rightarrow> ('f, 'a) kwargs \<Rightarrow> nat \<Rightarrow> ('f, 'a) pyval \<times> nat" where
  "dask_delayed fn args kwargs s = (Delayed s fn args kwargs, Suc s)"

text \<open>\<^verbatim>\<open>isinstance(v, dask.bag.Bag)\<close>.\<close>

fun is_Bag :: "('f, 'a) pyval \<Rightarrow> bool" where
  "is_Bag (BagFromDelayed d) = True"
| "is_Bag (BagMap fn args kwargs) = True"
| "is_Bag _ = False"

text \<open>
  \<^verbatim>\<open>dask.bag.map(fn, *args, **kwargs)\<close> builds the lazy collection; it raises
  ValueError at once when no argument is a bag.
\<close>

definition dask_bag_map ::
  "'f callable \<Rightarrow> ('f, 'a) pyval list \<Rightarrow> ('f, 'a) kwargs \<Rightarrow> error + ('f, 'a) pyval" where
  "dask_bag_map fn args kwargs =
     (if list_ex is_Bag (args @ map snd kwargs) then Inr (BagMap fn args kwargs)
      else Inl ValueError)"

text \<open>
  Evaluation. A list or dictionary is traversed; a \<^verbatim>\<open>Delayed\<close> node evaluates its
  arguments and calls its function; a bag from a delayed sequence has the elements of
  that sequence as rows. A mapped bag takes row \<open>i\<close> of every argument that is a
  bag, the value of every argument that is a \<^verbatim>\<open>Delayed\<close>, and every other
  argument as it is (a list of lazy nodes handed over as one argument is not looked
  into), and calls the function once per row; bags of different lengths are a
  ValueError.
\<close>

datatype ('f, 'a) column = Rows "('f, 'a) pyval list" | Bcast "('f, 'a) pyval"

fun is_Delayed :: "('f, 'a) pyval \<Rightarrow> bool" where
  "is_Delayed (Delayed key fn args kwargs) = True"
| "is_Delayed _ = False"

definition column_of :: "('f, 'a) pyval \<Rightarrow> error + ('f, 'a) pyval \<Rightarrow> error + ('f, 'a) column" where
  "column_of arg computed =
     (if is_Bag arg then
        (case computed of
           Inl e \<Rightarrow> Inl e
         | Inr v \<Rightarrow> (case py_list v of Inl e \<Rightarrow> Inl e | Inr rows \<Rightarrow> Inr (Rows rows)))
      else if is_Delayed arg then
        (case computed of Inl e \<Rightarrow> Inl e | Inr v \<Rightarrow> Inr (Bcast v))
      else Inr (Bcast arg))"

fun row_count :: "('f, 'a) column list \<Rightarrow> nat option" where
  "row_count [] = None"
| "row_count (Rows rows # cols) = Some (length rows)"
| "row_count (Bcast v # cols) = row_count cols"

fun fits :: "nat \<Rightarrow> ('f, 'a) column \<Rightarrow> bool" where
  "fits n (Rows rows) = (length rows = n)"
| "fits n (Bcast v) = True"

fun pick :: "nat \<Rightarrow> ('f, 'a) column \<Rightarrow> ('f, 'a) pyval" where
  "pick i (Rows rows) = rows ! i"
| "pick i (Bcast v) = v"

definition map_rows ::
  "('f, 'a) sem \<Rightarrow> 'f callable \<Rightarrow> ('f, 'a) column list \<Rightarrow> string list \<Rightarrow> ('f, 'a) column list
     \<Rightarrow> error + ('f, 'a) pyval" where
  "map_rows sem fn cols keys kwcols =
     (case row_count (cols @ kwcols) of
        None \<Rightarrow> Inl ValueError
      | Some n \<Rightarrow>
          if \<not> list_all (fits n) (cols @ kwcols) then Inl ValueError
          else (case sequence (map (\<lambda>i. sem fn (map (pick i) cols) (zip keys (map (pick i) kwcols)))
                                   [0..<n]) of
                  Inl e \<Rightarrow> Inl e
                | Inr rows \<Rightarrow> Inr (PyList rows)))"

fun compute :: "('f, 'a) sem \<Rightarrow> ('f, 'a) pyval \<Rightarrow> error + ('f, 'a) pyval" where
  "compute sem PyNone = Inr PyNone"
| "compute sem (Obj a) = Inr (Obj a)"
| "compute sem (PyList xs) =
     (case sequence (map (compute sem) xs) of
        Inl e \<Rightarrow> Inl e
      | Inr vs \<Rightarrow> Inr (PyList vs))"
| "compute sem (PyDict d) =
     (case sequence (map (\<lambda>kv. compute sem (snd kv)) d) of
        Inl e \<Rightarrow> Inl e
      | Inr vs \<Rightarrow> Inr (PyDict (zip (map fst d) vs)))"
| "compute sem (Delayed key fn args kwargs) =
     (case sequence (map (compute sem) args) of
        Inl e \<Rightarrow> Inl e
      | Inr vs \<Rightarrow>
          (case sequence (map (\<lambda>kv. compute sem (snd kv)) kwargs) of
             Inl e \<Rightarrow> Inl e
           | Inr kvs \<Rightarrow> sem fn vs (zip (map fst kwargs) kvs)))"
| "compute sem (BagFromDelayed d) =
     (case compute sem d of
        Inl e \<Rightarrow> Inl e
      | Inr v \<Rightarrow> (case py_list v of Inl e \<Rightarrow> Inl e | Inr rows \<Rightarrow> Inr (PyList rows)))"
| "compute sem (BagMap fn args kwargs) =
     (case sequence (map (\<lambda>a. column_of a (compute sem a)) args) of
        Inl e \<Rightarrow> Inl e
      | Inr cols \<Rightarrow>
          (case sequence (map (\<lambda>kv. column_of (snd kv) (compute sem (snd kv))) kwargs) of
             Inl e \<Rightarrow> Inl e
           | Inr kwcols \<Rightarrow> map_rows sem fn cols (map fst kwargs) kwcols))"

text \<open>
  \<^verbatim>\<open>dask.compute(*args)\<close> evaluates each of its arguments and returns the tuple of
  the results.
\<close>

definition dask_compute :: "('f, 'a) sem \<Rightarrow> ('f, 'a) pyval list \<Rightarrow> error + ('f, 'a) pyval list" where
  "dask_compute sem args = sequence (map (compute sem) args)"


section \<open>SynchronousExecutor\<close>

text \<open>
  The dictionary comprehension of \<^verbatim>\<open>map\<close>:
  \<^verbatim>\<open>{k: dask.bag.from_delayed(dask.delayed(state_to_list)(v))
     for k, v in maps.items() if k in maps and not isinstance(v, dask.bag.Bag)}\<close>.
  Every key that \<^verbatim>\<open>items()\<close> yields is in \<^verbatim>\<open>maps\<close>.
\<close>

fun needs_bagging :: "('f, 'a) pydict \<Rightarrow> nat \<Rightarrow> ('f, 'a) pydict \<times> nat" where
  "needs_bagging [] s = ([], s)"
| "needs_bagging ((k, v) # items) s =
     (if \<not> is_Bag v then
        (let (d, s1) = dask_delayed StateToList [v] [] s;
             (rest, s2) = needs_bagging items s1
         in ((k, BagFromDelayed d) # rest, s2))
      else needs_bagging items s)"

text \<open>
  The first part of \<^verbatim>\<open>SynchronousExecutor.map\<close>, up to
  \<^verbatim>\<open>upstream_states.update(maps)\<close>: what it does to the two dictionaries of the
  caller. It returns the two popped non-keyed values with the updated
  \<^verbatim>\<open>upstream_states\<close>, or the exception, and the two dictionaries as they are
  left. \<^verbatim>\<open>maps\<close> and \<^verbatim>\<open>upstream_states\<close> may be \<^verbatim>\<open>None\<close>, their default,
  on which \<^verbatim>\<open>.pop\<close> raises AttributeError.
\<close>

definition map_inputs ::
  "('f, 'a) pydict option \<Rightarrow> ('f, 'a) pydict option \<Rightarrow> nat
     \<Rightarrow> (error + ('f, 'a) pyval \<times> ('f, 'a) pyval \<times> ('f, 'a) pydict)
         \<times> ('f, 'a) pydict option \<times> ('f, 'a) pydict option \<times> nat" where
  "map_inputs maps upstream_states s =
     (case maps of
        None \<Rightarrow> (Inl AttributeError, None, upstream_states, s)
      | Some m \<Rightarrow>
          (let (mapped_non_keyed, m1) = dict_pop None (PyList []) m
           in case upstream_states of
                None \<Rightarrow> (Inl AttributeError, Some m1, None, s)
              | Some us \<Rightarrow>
                  (let (non_keyed, us1) = dict_pop None (PyList []) us;
                       (nb, s1) = needs_bagging m1 s;
                       m2 = dict_update m1 nb;
                       us2 = dict_update us1 m2
                   in (Inr (mapped_non_keyed, non_keyed, us2), Some m2, Some us2, s1))))"

text \<open>
  Truth value of \<^verbatim>\<open>if mapped_non_keyed:\<close>. An empty sequence or dictionary and
  \<^verbatim>\<open>None\<close> are false, an object and a bag are true, and the truth value of a
  \<^verbatim>\<open>Delayed\<close> raises TypeError.
\<close>

fun py_truthy :: "('f, 'a) pyval \<Rightarrow> error + bool" where
  "py_truthy PyNone = Inr False"
| "py_truthy (Obj a) = Inr True"
| "py_truthy (PyList xs) = Inr (xs \<noteq> [])"
| "py_truthy (PyDict d) = Inr (d \<noteq> [])"
| "py_truthy (Delayed key fn args kwargs) = Inl TypeError"
| "py_truthy (BagFromDelayed d) = Inr True"
| "py_truthy (BagMap fn args kwargs) = Inr True"

text \<open>\<^verbatim>\<open>**d\<close> in a call: every key must be a string.\<close>

fun py_keywords :: "('f, 'a) pydict \<Rightarrow> error + ('f, 'a) kwargs" where
  "py_keywords [] = Inr []"
| "py_keywords ((None, v) # d) = Inl TypeError"
| "py_keywords ((Some k, v) # d) =
     (case py_keywords d of Inl e \<Rightarrow> Inl e | Inr kw \<Rightarrow> Inr ((k, v) # kw))"

text \<open>
  The second part of \<^verbatim>\<open>SynchronousExecutor.map\<close>, from
  \<^verbatim>\<open>if mapped_non_keyed:\<close>. \<^verbatim>\<open>create_bagged_list\<close> belongs to
  \<^verbatim>\<open>prefect.utilities.executors\<close>, which is not among the sources: it is the
  parameter \<open>cbl\<close>. \<^verbatim>\<open>*other\<close> needs a sequence; a keyword given twice is a
  TypeError.
\<close>

definition map_bags ::
  "(('f, 'a) pyval \<Rightarrow> ('f, 'a) pyval \<Rightarrow> error + ('f, 'a) pyval)
     \<Rightarrow> 'f callable \<Rightarrow> ('f, 'a) pyval list \<Rightarrow> ('f, 'a) kwargs
     \<Rightarrow> ('f, 'a) pyval \<Rightarrow> ('f, 'a) pyval \<Rightarrow> ('f, 'a) pydict \<Rightarrow> error + ('f, 'a) pyval" where
  "map_bags cbl fn args kwargs mapped_non_keyed non_keyed upstream_states =
     (case py_truthy mapped_non_keyed of
        Inl e \<Rightarrow> Inl e
      | Inr b \<Rightarrow>
          (case (if b then
                   (case cbl mapped_non_keyed non_keyed of
                      Inl e \<Rightarrow> Inl e
                    | Inr upstreams \<Rightarrow> Inr ([], upstreams))
                 else
                   (case py_list non_keyed of
                      Inl e \<Rightarrow> Inl e
                    | Inr other \<Rightarrow> Inr (other, PyNone))) of
             Inl e \<Rightarrow> Inl e
           | Inr (other, upstreams) \<Rightarrow>
               (case py_keywords upstream_states of
                  Inl e \<Rightarrow> Inl e
                | Inr kw \<Rightarrow>
                    if ''upstreams'' \<in> set (map fst kw) then Inl TypeError
                    else (case dask_bag_map UnpackDictToBag other
                                 ((''upstreams'', upstreams) # kw) of
                            Inl e \<Rightarrow> Inl e
                          | Inr bagged_states \<Rightarrow>
                              dask_bag_map fn args
                                ((''upstream_states'', bagged_states) # kwargs)))))"

text \<open>
  \<^verbatim>\<open>SynchronousExecutor.map\<close>: the result or the exception, the caller's two
  dictionaries as the call leaves them, and the token supply.
\<close>

definition SynchronousExecutor_map ::
  "(('f, 'a) pyval \<Rightarrow> ('f, 'a) pyval \<Rightarrow> error + ('f, 'a) pyval)
     \<Rightarrow> 'f callable \<Rightarrow> ('f, 'a) pyval list
     \<Rightarrow> ('f, 'a) pydict option \<Rightarrow> ('f, 'a) pydict option \<Rightarrow> ('f, 'a) kwargs \<Rightarrow> nat
     \<Rightarrow> (error + ('f, 'a) pyval) \<times> ('f, 'a) pydict option \<times> ('f, 'a) pydict option \<times> nat" where
  "SynchronousExecutor_map cbl fn args maps upstream_states kwargs s =
     (case map_inputs maps upstream_states s of
        (Inl e, maps', upstream_states', s') \<Rightarrow> (Inl e, maps', upstream_states', s')
      | (Inr (mapped_non_keyed, non_keyed, us), maps', upstream_states', s') \<Rightarrow>
          (map_bags cbl fn args kwargs mapped_non_keyed non_keyed us,
           maps', upstream_states', s'))"


text \<open>
  \<^verbatim>\<open>SynchronousExecutor.wait(futures, timeout)\<close>:
  \<^verbatim>\<open>computed = dask.compute(futures)\<close>, then \<^verbatim>\<open>computed[0]\<close>.
\<close>

definition SynchronousExecutor_wait ::
  "('f, 'a) sem \<Rightarrow> ('f, 'a) pyval \<Rightarrow> nat option \<Rightarrow> error + ('f, 'a) pyval" where
  "SynchronousExecutor_wait sem futures timeout =
     (case dask_compute sem [futures] of
        Inl e \<Rightarrow> Inl e
      | Inr computed \<Rightarrow> (case computed of [] \<Rightarrow> Inl IndexError | v # rest \<Rightarrow> Inr v))"

text \<open>
  Modelled from the spec: \<^verbatim>\<open>unpack_dict_to_bag\<close> of
  \<^verbatim>\<open>prefect.utilities.executors\<close> is not among the sources. The spec: "the final
  per-row computation unpacks the combined upstream-state row back into the
  keyed/non-keyed mapping shape expected by fn". The positional values of the row, or
  else the combined row given as \<^verbatim>\<open>upstreams\<close>, become the non-keyed entry, and
  every other keyword a keyed entry. \<open>helper_sem\<close> is the meaning of the callables
  with the two helpers read this way and the functions of the caller given by
  \<open>user\<close>; it only supplies concrete runs of the synchronous executor.
\<close>

definition unpack_dict_to_bag ::
  "('f, 'a) pyval list \<Rightarrow> ('f, 'a) kwargs \<Rightarrow> error + ('f, 'a) pyval" where
  "unpack_dict_to_bag other kw =
     Inr (PyDict
       ((None, if other \<noteq> [] then PyList other
               else (case map_of kw ''upstreams'' of
                       Some (PyList row) \<Rightarrow> PyList row
                     | _ \<Rightarrow> PyList []))
        # map (\<lambda>kv. (Some (fst kv), snd kv)) (filter (\<lambda>kv. fst kv \<noteq> ''upstreams'') kw)))"

fun helper_sem ::
  "('f \<Rightarrow> ('f, 'a) pyval list \<Rightarrow> ('f, 'a) kwargs \<Rightarrow> error + ('f, 'a) pyval) \<Rightarrow> ('f, 'a) sem" where
  "helper_sem user StateToList args kw =
     (case args of
        [v] \<Rightarrow> (case state_to_list v of Inl e \<Rightarrow> Inl e | Inr xs \<Rightarrow> Inr (PyList xs))
      | _ \<Rightarrow> Inl TypeError)"
| "helper_sem user UnpackDictToBag args kw = unpack_dict_to_bag args kw"
| "helper_sem user (Fn f) args kw = user f args kw"

section \<open>Dictionary and backend facts\<close>

lemma map_of_dict_update_absent:
  "map_of e k = None \<Longrightarrow> map_of (dict_update d e) k = map_of d k"
  unfolding dict_update_def
  by (induction e arbitrary: d) (auto simp: AList.update_conv' split: if_splits)

lemma map_of_dict_update_present:
  "distinct (map fst e) \<Longrightarrow> map_of e k = Some v \<Longrightarrow> map_of (dict_update d e) k = Some v"
  unfolding dict_update_def
proof (induction e arbitrary: d)
  case Nil
  then show ?case by simp
next
  case (Cons kv e)
  show ?case
  proof (cases "fst kv = k")
    case True
    with Cons.prems have "map_of e k = None" and "snd kv = v"
      by (auto simp: map_of_eq_None_iff)
    then show ?thesis
      using True map_of_dict_update_absent [of e k "AList.update (fst kv) (snd kv) d"]
      by (simp add: dict_update_def AList.update_conv')
  next
    case False
    with Cons show ?thesis by auto
  qed
qed

lemma find_key_Some: "find_key t xs = Some k \<Longrightarrow> k < length xs \<and> xs ! k = t"
  by (induction xs arbitrary: k) (auto split: if_splits)

lemma client_submit_task:
  assumes "client_submit c fn args kw p = (k, c')"
  shows "k < length (tasks c')"
    and "tasks c' ! k = \<lparr>task_fn = fn, task_args = args, task_kwargs = kw, task_pure = p\<rparr>"
    and "\<exists>ext. tasks c' = tasks c @ ext"
    and "finish_time c' = finish_time c"
  using assms
  by (auto simp: client_submit_def Let_def nth_append split: option.splits if_splits dest: find_key_Some)

lemma mapper_loop_step:
  assumes "py_list (dict_get (dict_update us elem) None (PyList [])) = Inr own"
    and "list_add own nk = Inr v"
    and "client_submit c fn args
           ((''upstream_states'', PyDict (AList.update None v (dict_update us elem))) # kw) True
         = (fut, c1)"
  shows "mapper_loop fn args kw nk (elem # states) us futs c =
         mapper_loop fn args kw nk states (AList.update None v (dict_update us elem))
           (futs @ [fut]) c1"
  using assms by (simp add: Let_def)

lemma mapper_loop_prefix:
  "mapper_loop fn args kw nk states us futs c = (r, us', c') \<Longrightarrow> \<exists>ext. tasks c' = tasks c @ ext"
proof (induction states arbitrary: us futs c)
  case Nil
  then show ?case by simp
next
  case (Cons elem states)
  let ?us1 = "dict_update us elem"
  show ?case
  proof (cases "py_list (dict_get ?us1 None (PyList []))")
    case (Inl e)
    with Cons.prems show ?thesis by (simp add: Let_def)
  next
    case own: (Inr own)
    show ?thesis
    proof (cases "list_add own nk")
      case (Inl e)
      with own Cons.prems show ?thesis by (simp add: Let_def)
    next
      case (Inr v)
      obtain fut c1 where sub: "client_submit c fn args
          ((''upstream_states'', PyDict (AList.update None v ?us1)) # kw) True = (fut, c1)"
        by fastforce
      from Cons.prems have "mapper_loop fn args kw nk states (AList.update None v ?us1)
          (futs @ [fut]) c1 = (r, us', c')"
        by (simp only: mapper_loop_step [OF own Inr sub])
      from Cons.IH [OF this] client_submit_task(3) [OF sub] show ?thesis by auto
    qed
  qed
qed

lemma child_non_keyed_prefix:
  "k < length (tasks c) \<Longrightarrow> tasks c' = tasks c @ ext \<Longrightarrow> child_non_keyed c' k = child_non_keyed c k"
  by (simp add: child_non_keyed_def child_upstream_states_def nth_append)

lemma child_non_keyed_submitted:
  assumes "client_submit c fn args ((''upstream_states'', PyDict us) # kw) p = (fut, c1)"
  shows "child_non_keyed c1 fut = map_of us None"
  using client_submit_task(1,2) [OF assms]
  by (simp add: child_non_keyed_def child_upstream_states_def)

lemma mapper_loop_accumulates:
  assumes "\<forall>elem\<in>set states. map_of elem None = None"
    and "dict_get us None (PyList []) = PyList acc"
  shows "\<exists>fs us' c'.
           mapper_loop fn args kw (PyList nk) states us futs c = (Inr (futs @ fs), us', c') \<and>
           length fs = length states \<and>
           (\<forall>i<length states.
              child_non_keyed c' (fs ! i) = Some (PyList (acc @ concat (replicate (Suc i) nk))))"
  using assms
proof (induction states arbitrary: us futs c acc)
  case Nil
  then show ?case by simp
next
  case (Cons elem states)
  let ?us1 = "dict_update us elem"
  let ?us2 = "AList.update None (PyList (acc @ nk)) ?us1"
  from Cons.prems have absent: "map_of elem None = None" by simp
  have get1: "dict_get ?us1 None (PyList []) = PyList acc"
    using Cons.prems(2) by (simp add: dict_get_def map_of_dict_update_absent [OF absent])
  have own: "py_list (dict_get ?us1 None (PyList [])) = Inr acc"
    by (simp add: get1)
  have add: "list_add acc (PyList nk) = Inr (PyList (acc @ nk))" by simp
  obtain fut c1 where sub: "client_submit c fn args
      ((''upstream_states'', PyDict ?us2) # kw) True = (fut, c1)"
    by fastforce
  have step: "mapper_loop fn args kw (PyList nk) (elem # states) us futs c =
      mapper_loop fn args kw (PyList nk) states ?us2 (futs @ [fut]) c1"
    by (rule mapper_loop_step [OF own add sub])
  have get2: "dict_get ?us2 None (PyList []) = PyList (acc @ nk)"
    by (simp add: dict_get_def AList.update_conv')
  from Cons.prems have rest: "\<forall>elem\<in>set states. map_of elem None = None" by simp
  from Cons.IH [OF rest get2, of "futs @ [fut]" c1]
  obtain fs us' c' where
    run: "mapper_loop fn args kw (PyList nk) states ?us2 (futs @ [fut]) c1
            = (Inr ((futs @ [fut]) @ fs), us', c')"
    and len: "length fs = length states"
    and kids: "\<forall>i<length states.
        child_non_keyed c' (fs ! i) = Some (PyList ((acc @ nk) @ concat (replicate (Suc i) nk)))"
    by blast
  from mapper_loop_prefix [OF run] obtain ext where ext: "tasks c' = tasks c1 @ ext" ..
  have first: "child_non_keyed c' fut = Some (PyList (acc @ nk))"
    using child_non_keyed_prefix [OF client_submit_task(1) [OF sub] ext]
      child_non_keyed_submitted [OF sub]
    by (simp add: AList.update_conv')
  have "\<forall>i<length (elem # states).
      child_non_keyed c' ((fut # fs) ! i) = Some (PyList (acc @ concat (replicate (Suc i) nk)))"
  proof (intro allI impI)
    fix i assume "i < length (elem # states)"
    then show "child_non_keyed c' ((fut # fs) ! i)
        = Some (PyList (acc @ concat (replicate (Suc i) nk)))"
      using first kids by (cases i) simp_all
  qed
  with step run len show ?case
    by (intro exI [of _ "fut # fs"] exI [of _ us'] exI [of _ c']) simp
qed

lemma mapper_loop_own_non_keyed:
  assumes "\<forall>elem\<in>set states. distinct (map fst elem) \<and> (\<exists>own. map_of elem None = Some (PyList own))"
  shows "\<exists>fs us' c'.
           mapper_loop fn args kw (PyList nk) states us futs c = (Inr (futs @ fs), us', c') \<and>
           length fs = length states \<and>
           (\<forall>i<length states. \<exists>own.
              map_of (states ! i) None = Some (PyList own) \<and>
              child_non_keyed c' (fs ! i) = Some (PyList (own @ nk)))"
  using assms
proof (induction states arbitrary: us futs c)
  case Nil
  then show ?case by simp
next
  case (Cons elem states)
  from Cons.prems obtain own where dist: "distinct (map fst elem)"
    and elem_own: "map_of elem None = Some (PyList own)" by auto
  let ?us1 = "dict_update us elem"
  let ?us2 = "AList.update None (PyList (own @ nk)) ?us1"
  have own: "py_list (dict_get ?us1 None (PyList [])) = Inr own"
    by (simp add: dict_get_def map_of_dict_update_present [OF dist elem_own])
  have add: "list_add own (PyList nk) = Inr (PyList (own @ nk))" by simp
  obtain fut c1 where sub: "client_submit c fn args
      ((''upstream_states'', PyDict ?us2) # kw) True = (fut, c1)"
    by fastforce
  have step: "mapper_loop fn args kw (PyList nk) (elem # states) us futs c =
      mapper_loop fn args kw (PyList nk) states ?us2 (futs @ [fut]) c1"
    by (rule mapper_loop_step [OF own add sub])
  from Cons.prems have rest: "\<forall>elem\<in>set states. distinct (map fst elem) \<and>
      (\<exists>own. map_of elem None = Some (PyList own))"
    by (simp del: map_of_eq_Some_iff)
  from Cons.IH [OF rest, of ?us2 "futs @ [fut]" c1]
  obtain fs us' c' where
    run: "mapper_loop fn args kw (PyList nk) states ?us2 (futs @ [fut]) c1
            = (Inr ((futs @ [fut]) @ fs), us', c')"
    and len: "length fs = length states"
    and kids: "\<forall>i<length states. \<exists>own.
        map_of (states ! i) None = Some (PyList own) \<and>
        child_non_keyed c' (fs ! i) = Some (PyList (own @ nk))"
    by blast
  from mapper_loop_prefix [OF run] obtain ext where ext: "tasks c' = tasks c1 @ ext" ..
  have first: "child_non_keyed c' fut = Some (PyList (own @ nk))"
    using child_non_keyed_prefix [OF client_submit_task(1) [OF sub] ext]
      child_non_keyed_submitted [OF sub]
    by (simp add: AList.update_conv')
  have "\<forall>i<length (elem # states). \<exists>own.
      map_of ((elem # states) ! i) None = Some (PyList own) \<and>
      child_non_keyed c' ((fut # fs) ! i) = Some (PyList (own @ nk))"
  proof (intro allI impI)
    fix i assume "i < length (elem # states)"
    then show "\<exists>own. map_of ((elem # states) ! i) None = Some (PyList own) \<and>
        child_non_keyed c' ((fut # fs) ! i) = Some (PyList (own @ nk))"
      using first kids elem_own by (cases i) simp_all
  qed
  with step run len show ?case
    by (intro exI [of _ "fut # fs"] exI [of _ us'] exI [of _ c']) simp
qed

lemma map_of_dict_update:
  "distinct (map fst e) \<Longrightarrow>
   map_of (dict_update d e) k = (case map_of e k of Some v \<Rightarrow> Some v | None \<Rightarrow> map_of d k)"
  by (cases "map_of e k")
     (simp_all add: map_of_dict_update_absent map_of_dict_update_present del: map_of_eq_Some_iff)

lemma distinct_dict_update:
  "distinct (map fst d) \<Longrightarrow> distinct (map fst (dict_update d e))"
  unfolding dict_update_def
  by (induction e arbitrary: d) (simp_all add: AList.distinct_update)

lemma dict_pop_map_of:
  "dict_pop k dflt d = (v, d') \<Longrightarrow> map_of d' = (map_of d)(k := None)"
  by (auto simp: dict_pop_def AList.delete_conv' fun_eq_iff split: option.splits)

lemma dict_pop_distinct:
  "dict_pop k dflt d = (v, d') \<Longrightarrow> distinct (map fst d) \<Longrightarrow> distinct (map fst d')"
  by (auto simp: dict_pop_def AList.distinct_delete split: option.splits)


lemma find_key_appended: "find_key t xs = None \<Longrightarrow> find_key t (xs @ [t]) = Some (length xs)"
  by (induction xs) (auto split: if_splits)

lemma client_submit_pure_coalesces:
  assumes "client_submit c fn args kwargs True = (k, c1)"
  shows "client_submit c1 fn args kwargs True = (k, c1)"
proof -
  let ?t = "\<lparr>task_fn = fn, task_args = args, task_kwargs = kwargs, task_pure = True\<rparr>"
  show ?thesis
  proof (cases "find_key ?t (tasks c)")
    case (Some j)
    with assms show ?thesis by (simp add: client_submit_def)
  next
    case None
    with assms have k: "k = length (tasks c)" and c1: "c1 = c\<lparr>tasks := tasks c @ [?t]\<rparr>"
      by (simp_all add: client_submit_def)
    have "find_key ?t (tasks c @ [?t]) = Some (length (tasks c))"
      using None by (rule find_key_appended)
    then show ?thesis using k c1 by (simp add: client_submit_def)
  qed
qed

lemma sequence_Inr:
  "sequence (map f xs) = Inr vs \<Longrightarrow>
   length vs = length xs \<and> (\<forall>i<length xs. f (xs ! i) = Inr (vs ! i))"
proof (induction xs arbitrary: vs)
  case Nil
  then show ?case by simp
next
  case (Cons x xs)
  from Cons.prems obtain v ws where fx: "f x = Inr v" and rest: "sequence (map f xs) = Inr ws"
    and vs: "vs = v # ws"
    by (cases "f x"; cases "sequence (map f xs)") auto
  from Cons.IH [OF rest] have len: "length ws = length xs"
    and nth: "\<forall>i<length xs. f (xs ! i) = Inr (ws ! i)" by auto
  show ?case
  proof (intro conjI allI impI)
    show "length vs = length (x # xs)" using len vs by simp
  next
    fix i assume "i < length (x # xs)"
    then show "f ((x # xs) ! i) = Inr (vs ! i)"
      using fx nth vs by (cases i) simp_all
  qed
qed

lemma resolve_finish_time: "resolve sem (c\<lparr>finish_time := ft\<rparr>) = resolve sem c"
  by (rule ext) (simp add: resolve_def)

lemma client_gather_finish_time:
  "client_gather sem (c\<lparr>finish_time := ft\<rparr>) futures None = client_gather sem c futures None"
  by (simp add: client_gather_def resolve_finish_time)

lemma DaskExecutor_wait_ignores_timeout:
  "DaskExecutor_wait sem ex futures timeout = DaskExecutor_wait sem ex futures None"
  by (simp add: DaskExecutor_wait_def)

lemma submit_inside_start_succeeds:
  "connect (address ex) (processes ex) = Inr c \<Longrightarrow>
   fst (DaskExecutor_start connect ex (\<lambda>e. DaskExecutor_submit e fn args kwargs))
     = Inr (length (tasks c))"
  by (simp add: DaskExecutor_start_def DaskExecutor_submit_def client_submit_def Let_def
      split: prod.splits)

lemma needs_bagging_keys:
  "needs_bagging items s = (nb, s') \<Longrightarrow> set (map fst nb) \<subseteq> set (map fst items) \<and> s \<le> s'"
proof (induction items arbitrary: s nb s')
  case Nil
  then show ?case by simp
next
  case (Cons kv items)
  obtain k v where kv: "kv = (k, v)" by (cases kv)
  show ?case
  proof (cases "is_Bag v")
    case True
    with Cons.prems kv have "needs_bagging items s = (nb, s')" by simp
    from Cons.IH [OF this] show ?thesis by auto
  next
    case False
    obtain rest s2 where r: "needs_bagging items (Suc s) = (rest, s2)" by fastforce
    with Cons.prems kv False have "nb = (k, BagFromDelayed (Delayed s StateToList [v] [])) # rest"
      and "s' = s2" by (simp_all add: dask_delayed_def)
    with Cons.IH [OF r] kv show ?thesis by auto
  qed
qed

lemma needs_bagging_map_of:
  assumes "needs_bagging items s = (nb, s')" and "distinct (map fst items)"
  shows "distinct (map fst nb) \<and>
         (\<forall>k. case map_of items k of
                 None \<Rightarrow> map_of nb k = None
               | Some v \<Rightarrow>
                   if is_Bag v then map_of nb k = None
                   else (\<exists>t. s \<le> t \<and> t < s' \<and>
                          map_of nb k = Some (BagFromDelayed (Delayed t StateToList [v] []))))"
  using assms
proof (induction items arbitrary: s nb s')
  case Nil
  then show ?case by simp
next
  case (Cons kv items)
  obtain k0 v0 where kv: "kv = (k0, v0)" by (cases kv)
  from Cons.prems kv have fresh: "k0 \<notin> set (map fst items)" and dist: "distinct (map fst items)"
    by simp_all
  show ?case
  proof (cases "is_Bag v0")
    case True
    with Cons.prems kv have r: "needs_bagging items s = (nb, s')" by simp
    from needs_bagging_keys [OF r] fresh have "k0 \<notin> set (map fst nb)" by auto
    then have none: "map_of nb k0 = None" by (simp add: map_of_eq_None_iff)
    from Cons.IH [OF r dist] none True kv show ?thesis by auto
  next
    case False
    obtain rest s2 where r: "needs_bagging items (Suc s) = (rest, s2)" by fastforce
    with Cons.prems kv False
    have nb: "nb = (k0, BagFromDelayed (Delayed s StateToList [v0] [])) # rest" and s': "s' = s2"
      by (simp_all add: dask_delayed_def)
    from needs_bagging_keys [OF r] fresh have k0: "k0 \<notin> set (map fst rest)" and le: "Suc s \<le> s2"
      by auto
    from Cons.IH [OF r dist] have d: "distinct (map fst rest)"
      and ih: "\<And>k. case map_of items k of
                 None \<Rightarrow> map_of rest k = None
               | Some v \<Rightarrow>
                   if is_Bag v then map_of rest k = None
                   else (\<exists>t. Suc s \<le> t \<and> t < s2 \<and>
                          map_of rest k = Some (BagFromDelayed (Delayed t StateToList [v] [])))"
      by auto
    have "case map_of (kv # items) k of
                 None \<Rightarrow> map_of nb k = None
               | Some v \<Rightarrow>
                   if is_Bag v then map_of nb k = None
                   else (\<exists>t. s \<le> t \<and> t < s' \<and>
                          map_of nb k = Some (BagFromDelayed (Delayed t StateToList [v] [])))" for k
    proof (cases "k = k0")
      case True
      with kv nb s' le False show ?thesis by auto
    next
      case neq: False
      show ?thesis
      proof (cases "map_of items k")
        case None
        with ih [of k] neq kv nb show ?thesis by simp
      next
        case (Some v)
        with ih [of k] neq kv nb s' show ?thesis
          by (cases "is_Bag v") (auto intro: Suc_leD)
      qed
    qed
    with d k0 nb show ?thesis by simp
  qed
qed


lemma map_inputs_dicts:
  assumes "distinct (map fst maps)"
  shows "\<exists>mnk nk m2 us2 s'.
           map_inputs (Some maps) (Some us) s = (Inr (mnk, nk, us2), Some m2, Some us2, s') \<and>
           map_of m2 None = None \<and> map_of us2 None = None \<and>
           (\<forall>k. map_of us2 (Some k) =
                  (case map_of m2 (Some k) of Some b \<Rightarrow> Some b | None \<Rightarrow> map_of us (Some k))) \<and>
           (\<forall>k. case map_of maps (Some k) of
                   None \<Rightarrow> map_of m2 (Some k) = None
                 | Some v \<Rightarrow>
                     if is_Bag v then map_of m2 (Some k) = Some v
                     else (\<exists>t. s \<le> t \<and> t < s' \<and>
                            map_of m2 (Some k) =
                              Some (BagFromDelayed (Delayed t StateToList [v] []))))"
proof -
  obtain mnk m1 where pop1: "dict_pop None (PyList []) maps = (mnk, m1)" by fastforce
  obtain nk us1 where pop2: "dict_pop None (PyList []) us = (nk, us1)" by fastforce
  obtain nb s' where nbq: "needs_bagging m1 s = (nb, s')" by fastforce
  let ?m2 = "dict_update m1 nb"
  let ?us2 = "dict_update us1 ?m2"
  have run: "map_inputs (Some maps) (Some us) s = (Inr (mnk, nk, ?us2), Some ?m2, Some ?us2, s')"
    by (simp add: map_inputs_def pop1 pop2 nbq Let_def)
  have m1: "map_of m1 = (map_of maps)(None := None)" by (rule dict_pop_map_of [OF pop1])
  have us1: "map_of us1 = (map_of us)(None := None)" by (rule dict_pop_map_of [OF pop2])
  have d1: "distinct (map fst m1)" by (rule dict_pop_distinct [OF pop1 assms])
  from needs_bagging_map_of [OF nbq d1]
  have dnb: "distinct (map fst nb)"
    and nb: "\<And>k. case map_of m1 k of
               None \<Rightarrow> map_of nb k = None
             | Some v \<Rightarrow>
                 if is_Bag v then map_of nb k = None
                 else (\<exists>t. s \<le> t \<and> t < s' \<and>
                        map_of nb k = Some (BagFromDelayed (Delayed t StateToList [v] [])))"
    by auto
  have d2: "distinct (map fst ?m2)" by (rule distinct_dict_update [OF d1])
  have m2: "map_of ?m2 k = (case map_of nb k of Some v \<Rightarrow> Some v | None \<Rightarrow> map_of m1 k)" for k
    by (rule map_of_dict_update [OF dnb])
  have us2: "map_of ?us2 k = (case map_of ?m2 k of Some v \<Rightarrow> Some v | None \<Rightarrow> map_of us1 k)" for k
    by (rule map_of_dict_update [OF d2])
  have m2_None: "map_of ?m2 None = None"
    using nb [of None] by (simp add: m2 m1)
  have us2_None: "map_of ?us2 None = None"
    by (simp add: us2 m2_None us1)
  have keyed_us: "map_of ?us2 (Some k) =
      (case map_of ?m2 (Some k) of Some b \<Rightarrow> Some b | None \<Rightarrow> map_of us (Some k))" for k
    by (simp add: us2 us1 split: option.splits)
  have keyed_m: "case map_of maps (Some k) of
                   None \<Rightarrow> map_of ?m2 (Some k) = None
                 | Some v \<Rightarrow>
                     if is_Bag v then map_of ?m2 (Some k) = Some v
                     else (\<exists>t. s \<le> t \<and> t < s' \<and>
                            map_of ?m2 (Some k) =
                              Some (BagFromDelayed (Delayed t StateToList [v] [])))" for k
  proof (cases "map_of maps (Some k)")
    case None
    with nb [of "Some k"] show ?thesis by (simp add: m2 m1)
  next
    case (Some v)
    with nb [of "Some k"] show ?thesis by (cases "is_Bag v") (auto simp: m2 m1)
  qed
  from run m2_None us2_None keyed_us keyed_m show ?thesis by blast
qed

lemma SynchronousExecutor_map_dicts:
  "snd (SynchronousExecutor_map cbl fn args maps upstream_states kwargs s)
     = snd (map_inputs maps upstream_states s)"
  by (cases "map_inputs maps upstream_states s" rule: prod_cases4)
     (auto simp: SynchronousExecutor_map_def split: sum.splits)







lemma sequence_map_Inr:
  "(\<And>x. x \<in> set xs \<Longrightarrow> f x = Inr (g x)) \<Longrightarrow> sequence (map f xs) = Inr (map g xs)"
  by (induction xs) simp_all


lemma SynchronousExecutor_map_broadcasts_once:
  "(case fst (SynchronousExecutor_map cbl (Fn ''f'') []
               (Some [(Some ''x'', PyList [Obj (1::nat), Obj 2])])
               (Some [(None, PyList [Obj 7])]) [] 0) of
      Inl e \<Rightarrow> Inl e
    | Inr bag \<Rightarrow>
        SynchronousExecutor_wait
          (helper_sem (\<lambda>f args kw. Inr (PyList (map snd kw)))) bag None)
   = Inr (PyList [PyList [PyDict [(None, PyList [Obj 7]), (Some ''x'', Obj 1)]],
                  PyList [PyDict [(None, PyList [Obj 7]), (Some ''x'', Obj 2)]]])"
  by (simp add: SynchronousExecutor_map_def map_inputs_def dict_pop_def dict_update_def
        dask_delayed_def map_bags_def dask_bag_map_def SynchronousExecutor_wait_def
        dask_compute_def column_of_def map_rows_def unpack_dict_to_bag_def Let_def)

section \<open>C1: the fan-out organizer and the non-keyed broadcast\<close>

text \<open>
  Claim C1 (every child of a mapped call on DaskExecutor receives, under the non-keyed
  key of its upstream states, exactly one copy of the non-keyed broadcast list, never
  accumulated across children). Two lemmas above give the whole picture: when each
  element brings a non-keyed entry of its own, child \<open>i\<close> receives that entry
  followed by one copy of the broadcast (\<open>mapper_loop_own_non_keyed\<close>); when the
  elements are keyed only, the entry the previous child left in the dictionary is
  read back and child \<open>i\<close> receives \<open>i + 1\<close> copies
  (\<open>mapper_loop_accumulates\<close>). The synchronous executor gives every row one copy
  on the same input (\<open>SynchronousExecutor_map_broadcasts_once\<close>). The theorem runs
  \<^verbatim>\<open>mapper\<close> on \<^verbatim>\<open>maps = {'x': [1, 2]}\<close> and
  \<^verbatim>\<open>upstream_states = {None: [7]}\<close>: two children are submitted, the first with
  the broadcast \<^verbatim>\<open>[7]\<close>, the second with \<^verbatim>\<open>[7, 7]\<close>.
\<close>

theorem mapper_second_child_gets_broadcast_twice:
  "fst (mapper dict_to_list (Some [(Some ''x'', PyList [Obj (1::nat), Obj 2])]) (Fn ''f'') []
          (Some [(None, PyList [Obj 7])]) [] \<lparr>tasks = [], finish_time = (\<lambda>k. 0)\<rparr>)
     = Inr [0, 1] \<and>
   map (child_non_keyed
          (snd (snd (mapper dict_to_list (Some [(Some ''x'', PyList [Obj (1::nat), Obj 2])])
                       (Fn ''f'') [] (Some [(None, PyList [Obj 7])]) []
                       \<lparr>tasks = [], finish_time = (\<lambda>k. 0)\<rparr>))))
       [0, 1]
     = [Some (PyList [Obj 7]), Some (PyList [Obj 7, Obj 7])]"
  by (simp add: mapper_def dict_to_list_def dict_pop_def same_length_def dict_update_def
        dict_get_def client_submit_def child_non_keyed_def child_upstream_states_def Let_def)

section \<open>C2: the timeout of DaskExecutor.wait\<close>

text \<open>
  Claim C2 (DaskExecutor.wait with a timeout fails with a timeout condition when the
  Futures are not resolved within the timeout, instead of blocking past it). The
  method documents \<^verbatim>\<open>timeout\<close> as the "maximum length of time to allow for
  execution" and then calls \<^verbatim>\<open>self.client.gather(futures)\<close> without it, so that
  every timeout behaves as none (\<open>DaskExecutor_wait_ignores_timeout\<close>). The theorem
  takes a session whose only task finishes at time 5 and a timeout of 1: the gather of
  the backend with that timeout raises its timeout error, and
  \<^verbatim>\<open>DaskExecutor.wait\<close> returns the value of the task.
\<close>

theorem DaskExecutor_wait_blocks_past_timeout:
  "client_gather (\<lambda>fn args kwargs. Inr (Obj (42::nat)))
     \<lparr>tasks = [\<lparr>task_fn = Fn ''slow'', task_args = [], task_kwargs = [], task_pure = False\<rparr>],
      finish_time = (\<lambda>k. 5)\<rparr> [0] (Some 1) = Inl TimeoutError \<and>
   DaskExecutor_wait (\<lambda>fn args kwargs. Inr (Obj (42::nat)))
     \<lparr>address = None, processes = False, self_kwargs = [],
      client = Some \<lparr>tasks = [\<lparr>task_fn = Fn ''slow'', task_args = [], task_kwargs = [],
                                 task_pure = False\<rparr>],
                      finish_time = (\<lambda>k. 5)\<rparr>\<rparr> [0] (Some 1) = Inr [Obj 42]"
  by (simp add: client_gather_def DaskExecutor_wait_def resolve_def)

section \<open>C3: the order of the values returned by wait\<close>

text \<open>
  Claim C3 (for every sequence of Futures passed to wait, on both executors, the
  returned values are in the order of the input sequence, whatever the order in which
  the tasks complete). For each executor: when every listed Future resolves, to
  \<open>g k\<close> say, wait returns \<open>map g futures\<close>; and whenever wait returns, the
  result has the length of the input and its \<open>i\<close>-th value is the value of the
  \<open>i\<close>-th Future. For DaskExecutor the result is the same under every assignment
  \<open>ft\<close> of completion times.
\<close>

theorem wait_keeps_order:
  "(client ex = Some c \<and> (\<forall>k\<in>set futures. resolve sem c k = Inr (g k)) \<longrightarrow>
      DaskExecutor_wait sem ex futures timeout = Inr (map g futures)) \<and>
   (DaskExecutor_wait sem ex futures timeout = Inr vs \<longrightarrow>
      length vs = length futures \<and>
      (\<exists>c. client ex = Some c \<and>
           (\<forall>i<length futures. resolve sem c (futures ! i) = Inr (vs ! i)) \<and>
           (\<forall>ft. DaskExecutor_wait sem (ex\<lparr>client := Some (c\<lparr>finish_time := ft\<rparr>)\<rparr>)
                    futures timeout = Inr vs))) \<and>
   ((\<forall>x\<in>set lazies. compute sem x = Inr (h x)) \<longrightarrow>
      SynchronousExecutor_wait sem (PyList lazies) timeout' = Inr (PyList (map h lazies))) \<and>
   (SynchronousExecutor_wait sem (PyList lazies) timeout' = Inr v \<longrightarrow>
      (\<exists>ws. v = PyList ws \<and> length ws = length lazies \<and>
            (\<forall>i<length lazies. compute sem (lazies ! i) = Inr (ws ! i))))"
proof (intro conjI impI)
  assume "client ex = Some c \<and> (\<forall>k\<in>set futures. resolve sem c k = Inr (g k))"
  then have c: "client ex = Some c"
    and "sequence (map (resolve sem c) futures) = Inr (map g futures)"
    by (simp_all add: sequence_map_Inr)
  then show "DaskExecutor_wait sem ex futures timeout = Inr (map g futures)"
    by (simp add: DaskExecutor_wait_def client_gather_def)
next
  assume w: "DaskExecutor_wait sem ex futures timeout = Inr vs"
  then obtain c where c: "client ex = Some c"
    and g: "sequence (map (resolve sem c) futures) = Inr vs"
    by (auto simp: DaskExecutor_wait_def client_gather_def split: option.splits)
  from sequence_Inr [OF g] show "length vs = length futures" by simp
  have "\<forall>ft. DaskExecutor_wait sem (ex\<lparr>client := Some (c\<lparr>finish_time := ft\<rparr>)\<rparr>)
      futures timeout = Inr vs"
    using w c by (simp add: DaskExecutor_wait_def client_gather_finish_time)
  with sequence_Inr [OF g] c
  show "\<exists>c. client ex = Some c \<and>
      (\<forall>i<length futures. resolve sem c (futures ! i) = Inr (vs ! i)) \<and>
      (\<forall>ft. DaskExecutor_wait sem (ex\<lparr>client := Some (c\<lparr>finish_time := ft\<rparr>)\<rparr>)
               futures timeout = Inr vs)"
    by blast
next
  assume "\<forall>x\<in>set lazies. compute sem x = Inr (h x)"
  then have "sequence (map (compute sem) lazies) = Inr (map h lazies)"
    by (simp add: sequence_map_Inr)
  then show "SynchronousExecutor_wait sem (PyList lazies) timeout' = Inr (PyList (map h lazies))"
    by (simp add: SynchronousExecutor_wait_def dask_compute_def)
next
  assume w: "SynchronousExecutor_wait sem (PyList lazies) timeout' = Inr v"
  then obtain ws where g: "sequence (map (compute sem) lazies) = Inr ws" and v: "v = PyList ws"
    by (cases "sequence (map (compute sem) lazies)")
       (auto simp: SynchronousExecutor_wait_def dask_compute_def)
  from sequence_Inr [OF g] v
  show "\<exists>ws. v = PyList ws \<and> length ws = length lazies \<and>
      (\<forall>i<length lazies. compute sem (lazies ! i) = Inr (ws ! i))"
    by blast
qed

text \<open>
  Three tasks that finish in the reverse order of their submission, gathered in the
  order 2, 0, 1, and two lazy nodes listed in the reverse order of their keys.
\<close>

theorem wait_keeps_order_witness:
  "DaskExecutor_wait (\<lambda>fn args kwargs. Inr (PyList args))
     \<lparr>address = None, processes = False, self_kwargs = [],
      client = Some \<lparr>tasks =
          [\<lparr>task_fn = Fn ''id'', task_args = [Obj (10::nat)], task_kwargs = [], task_pure = False\<rparr>,
           \<lparr>task_fn = Fn ''id'', task_args = [Obj 11], task_kwargs = [], task_pure = False\<rparr>,
           \<lparr>task_fn = Fn ''id'', task_args = [Obj 12], task_kwargs = [], task_pure = False\<rparr>],
        finish_time = (\<lambda>k. 30 - 10 * k)\<rparr>\<rparr>
     [2, 0, 1] None
     = Inr [PyList [Obj 12], PyList [Obj 10], PyList [Obj 11]] \<and>
   SynchronousExecutor_wait (\<lambda>fn args kwargs. Inr (PyList args))
     (PyList [Delayed 1 (Fn ''id'') [Obj (11::nat)] [], Delayed 0 (Fn ''id'') [Obj 10] []]) None
     = Inr (PyList [PyList [Obj 11], PyList [Obj 10]])"
  using wait_keeps_order
    [where sem = "\<lambda>fn args kwargs. Inr (PyList args)"
       and ex = "\<lparr>address = None, processes = False, self_kwargs = [],
            client = Some \<lparr>tasks =
          [\<lparr>task_fn = Fn ''id'', task_args = [Obj (10::nat)], task_kwargs = [], task_pure = False\<rparr>,
           \<lparr>task_fn = Fn ''id'', task_args = [Obj 11], task_kwargs = [], task_pure = False\<rparr>,
           \<lparr>task_fn = Fn ''id'', task_args = [Obj 12], task_kwargs = [], task_pure = False\<rparr>],
        finish_time = (\<lambda>k. 30 - 10 * k)\<rparr>\<rparr>"
       and c = "\<lparr>tasks =
          [\<lparr>task_fn = Fn ''id'', task_args = [Obj (10::nat)], task_kwargs = [], task_pure = False\<rparr>,
           \<lparr>task_fn = Fn ''id'', task_args = [Obj 11], task_kwargs = [], task_pure = False\<rparr>,
           \<lparr>task_fn = Fn ''id'', task_args = [Obj 12], task_kwargs = [], task_pure = False\<rparr>],
        finish_time = (\<lambda>k. 30 - 10 * k)\<rparr>"
       and futures = "[2, 0, 1]"
       and g = "\<lambda>k. PyList [Obj (10 + k)]"
       and lazies = "[Delayed 1 (Fn ''id'') [Obj (11::nat)] [], Delayed 0 (Fn ''id'') [Obj 10] []]"
       and h = "\<lambda>d. case d of Delayed key fn args kwargs \<Rightarrow> PyList args | _ \<Rightarrow> PyNone"
       and timeout = None and timeout' = None]
  by (simp add: resolve_def)

section \<open>C4: what a mapped Future resolves to\<close>

text \<open>
  Claim C4 (a mapped call over N elements returns exactly N Futures, and resolving
  Future \<open>i\<close> yields \<open>fn\<close> applied to the \<open>i\<close>-th mapped element together
  with the full broadcast of the non-keyed arguments). On DaskExecutor the count is
  right, and the argument of the later children is not: for
  \<^verbatim>\<open>maps = {'x': [1, 2]}\<close> and \<^verbatim>\<open>upstream_states = {None: [7]}\<close> the call
  returns two Futures, and waiting for the second one applies \<open>fn\<close> to the second
  element with the broadcast \<^verbatim>\<open>[7, 7]\<close>, for every meaning \<open>sem\<close> of the
  functions.
\<close>

theorem DaskExecutor_map_second_future:
  "fst (DaskExecutor_map dict_to_list
          \<lparr>address = None, processes = False, self_kwargs = [],
           client = Some \<lparr>tasks = [], finish_time = (\<lambda>k. 0)\<rparr>\<rparr>
          (Fn ''f'') [] (Some [(Some ''x'', PyList [Obj (1::nat), Obj 2])])
          (Some [(None, PyList [Obj 7])]) []) = Inr [0, 1] \<and>
   DaskExecutor_wait sem
     (snd (DaskExecutor_map dict_to_list
          \<lparr>address = None, processes = False, self_kwargs = [],
           client = Some \<lparr>tasks = [], finish_time = (\<lambda>k. 0)\<rparr>\<rparr>
          (Fn ''f'') [] (Some [(Some ''x'', PyList [Obj (1::nat), Obj 2])])
          (Some [(None, PyList [Obj 7])]) [])) [1] None
   = (case sem (Fn ''f'') []
             [(''upstream_states'',
               PyDict [(Some ''x'', Obj 2), (None, PyList [Obj 7, Obj 7])])] of
        Inl e \<Rightarrow> Inl e | Inr v \<Rightarrow> Inr [v])"
  by (simp add: DaskExecutor_map_def mapper_def dict_to_list_def dict_pop_def same_length_def
        dict_update_def dict_get_def client_submit_def Let_def DaskExecutor_wait_def
        client_gather_def resolve_def split: sum.splits)

section \<open>C5: submissions are not coalesced\<close>



section \<open>C6: the timeout of SynchronousExecutor.wait\<close>

text \<open>
  Claim C6 (SynchronousExecutor.wait accepts a timeout that has no effect: for every
  input and every two timeout values, also None, it returns the same fully evaluated
  values). The call returns the evaluation of its argument, a total function of the
  lazy value, and so the same for every two timeouts.
\<close>

theorem SynchronousExecutor_wait_ignores_timeout:
  "SynchronousExecutor_wait sem futures timeout = compute sem futures \<and>
   SynchronousExecutor_wait sem futures timeout = SynchronousExecutor_wait sem futures timeout'"
  by (cases "compute sem futures") (simp_all add: SynchronousExecutor_wait_def dask_compute_def)

section \<open>C7: keyed mapped inputs become bags\<close>

text \<open>
  Claim C7 (in SynchronousExecutor.map, the value of each key of maps that is not
  already a bag is converted into a bag in which each element of the value is one row,
  through state_to_list; a value that is a bag is passed through unchanged; the
  results replace the originals among the keyed upstream states). The keys are the
  names of keyed edges, the non-keyed entry having been popped before. For a key
  \<open>k\<close> of \<^verbatim>\<open>maps\<close> with value \<open>v\<close>, the call leaves under \<open>k\<close>, in
  \<^verbatim>\<open>maps\<close> and in \<^verbatim>\<open>upstream_states\<close> alike, \<open>v\<close> itself when it is a
  bag, and otherwise the bag made from the delayed call of \<^verbatim>\<open>state_to_list\<close> on
  \<open>v\<close>, whose rows are the elements of the list that call returns.
\<close>

theorem map_bags_keyed_inputs:
  assumes "distinct (map fst maps)" and "map_of maps (Some k) = Some v"
  shows "\<exists>r m2 us2 s'.
           SynchronousExecutor_map cbl fn args (Some maps) (Some us) kwargs s
             = (r, Some m2, Some us2, s') \<and>
           map_of us2 (Some k) = map_of m2 (Some k) \<and>
           (if is_Bag v then map_of m2 (Some k) = Some v
            else (\<exists>t. s \<le> t \<and> t < s' \<and>
                   map_of m2 (Some k) = Some (BagFromDelayed (Delayed t StateToList [v] [])) \<and>
                   compute sem (BagFromDelayed (Delayed t StateToList [v] [])) =
                     (case compute sem v of
                        Inl e \<Rightarrow> Inl e
                      | Inr x \<Rightarrow>
                          (case sem StateToList [x] [] of
                             Inl e \<Rightarrow> Inl e
                           | Inr l \<Rightarrow>
                               (case py_list l of
                                  Inl e \<Rightarrow> Inl e
                                | Inr rows \<Rightarrow> Inr (PyList rows))))))"
proof -
  from map_inputs_dicts [OF assms(1), of us s]
  obtain mnk nk m2 us2 s' where
    run: "map_inputs (Some maps) (Some us) s = (Inr (mnk, nk, us2), Some m2, Some us2, s')"
    and keyed_us: "\<And>k. map_of us2 (Some k) =
        (case map_of m2 (Some k) of Some b \<Rightarrow> Some b | None \<Rightarrow> map_of us (Some k))"
    and keyed_m: "\<And>k. case map_of maps (Some k) of
                   None \<Rightarrow> map_of m2 (Some k) = None
                 | Some v \<Rightarrow>
                     if is_Bag v then map_of m2 (Some k) = Some v
                     else (\<exists>t. s \<le> t \<and> t < s' \<and>
                            map_of m2 (Some k) =
                              Some (BagFromDelayed (Delayed t StateToList [v] [])))"
    by blast
  have whole: "SynchronousExecutor_map cbl fn args (Some maps) (Some us) kwargs s
      = (map_bags cbl fn args kwargs mnk nk us2, Some m2, Some us2, s')"
    by (simp add: SynchronousExecutor_map_def run)
  have rows: "compute sem (BagFromDelayed (Delayed t StateToList [v] [])) =
                     (case compute sem v of
                        Inl e \<Rightarrow> Inl e
                      | Inr x \<Rightarrow>
                          (case sem StateToList [x] [] of
                             Inl e \<Rightarrow> Inl e
                           | Inr l \<Rightarrow>
                               (case py_list l of
                                  Inl e \<Rightarrow> Inl e
                                | Inr rows \<Rightarrow> Inr (PyList rows))))" for t
    by (cases "compute sem v") simp_all
  from keyed_m [of k] assms(2)
  have m2k: "if is_Bag v then map_of m2 (Some k) = Some v
     else (\<exists>t. s \<le> t \<and> t < s' \<and>
             map_of m2 (Some k) = Some (BagFromDelayed (Delayed t StateToList [v] [])))"
    by simp
  then have some: "map_of m2 (Some k) \<noteq> None" by (auto split: if_splits)
  with keyed_us [of k] have same: "map_of us2 (Some k) = map_of m2 (Some k)" by auto
  from whole same m2k rows show ?thesis
    by (cases "is_Bag v") auto
qed

text \<open>A list under \<^verbatim>\<open>'x'\<close> and a bag under \<^verbatim>\<open>'y'\<close>, for every helper \<open>cbl\<close>.\<close>

theorem map_bags_keyed_inputs_witness:
  "distinct (map fst [(Some ''x'', PyList [Obj (1::nat), Obj 2]),
                      (Some ''y'', BagFromDelayed (Delayed 0 (StateToList :: string callable) [Obj 9] []))]) \<and>
   map_of [(Some ''x'', PyList [Obj (1::nat), Obj 2]),
           (Some ''y'', BagFromDelayed (Delayed 0 (StateToList :: string callable) [Obj 9] []))] (Some ''x'')
     = Some (PyList [Obj 1, Obj 2]) \<and>
   (\<forall>cbl. snd (SynchronousExecutor_map cbl (Fn ''f'') []
             (Some [(Some ''x'', PyList [Obj (1::nat), Obj 2]),
                    (Some ''y'', BagFromDelayed (Delayed 0 StateToList [Obj 9] []))])
             (Some [(Some ''x'', Obj 5), (None, PyList [Obj 7])]) [] 1)
     = (Some [(Some ''x'', BagFromDelayed (Delayed 1 StateToList [PyList [Obj 1, Obj 2]] [])),
              (Some ''y'', BagFromDelayed (Delayed 0 StateToList [Obj 9] []))],
        Some [(Some ''x'', BagFromDelayed (Delayed 1 StateToList [PyList [Obj 1, Obj 2]] [])),
              (Some ''y'', BagFromDelayed (Delayed 0 StateToList [Obj 9] []))],
        2))"
  using map_bags_keyed_inputs
    [where maps = "[(Some ''x'', PyList [Obj (1::nat), Obj 2]),
                    (Some ''y'', BagFromDelayed (Delayed 0 (StateToList :: string callable) [Obj 9] []))]"
       and k = "''x''" and v = "PyList [Obj 1, Obj 2]"
       and us = "[(Some ''x'', Obj 5), (None, PyList [Obj 7])]" and s = 1]
  by (simp add: SynchronousExecutor_map_def map_inputs_def dict_pop_def dict_update_def
        dask_delayed_def Let_def)

section \<open>C8: the session ends with the scope of start\<close>

text \<open>
  Claim C8 (after the scope of DaskExecutor.start exits, normally or by an exception,
  the client reference of the executor is cleared, and a submit made without entering
  a new scope fails). Whatever the connection and the body do, the executor is left
  without a client, and \<^verbatim>\<open>submit\<close> on it raises and submits nothing. Inside the
  scope the same call succeeds (\<open>submit_inside_start_succeeds\<close>).
\<close>

theorem start_exit_clears_client:
  "client (snd (DaskExecutor_start connect ex body)) = None \<and>
   DaskExecutor_submit (snd (DaskExecutor_start connect ex body)) fn args kwargs
     = (Inl AttributeError, snd (DaskExecutor_start connect ex body))"
proof -
  have cleared: "client (snd (DaskExecutor_start connect ex body)) = None"
    by (simp add: DaskExecutor_start_def split: sum.splits prod.splits)
  then show ?thesis by (simp add: DaskExecutor_submit_def)
qed

section \<open>C9: what map does to the dictionaries of its caller\<close>




section \<open>C10: map needs both dictionaries\<close>



end
